theory Spec2Isabelle
  imports Main "HOL-Library.Word"
begin

section \<open>Frames and the image operations of the capture loop\<close>

text \<open>
  A camera frame is a numpy array of shape \<open>(height, width, 3)\<close> holding 8-bit
  channels (the cameras are configured with format \<open>RGB888\<close>). The shape is kept
  beside the pixel rows, as numpy keeps it, so that a frame without rows still has a
  width.
\<close>

type_synonym pixel = "8 word \<times> 8 word \<times> 8 word"

record frame =
  height :: nat
  width :: nat
  rows :: "pixel list list"

definition valid_frame :: "frame \<Rightarrow> bool" where
  "valid_frame f \<longleftrightarrow>
     length (rows f) = height f \<and> list_all (\<lambda>r. length r = width f) (rows f)"

text \<open>
  The exceptions of the program. All of them are subclasses of Python's
  \<open>Exception\<close>, so an \<open>except Exception\<close> clause catches each of them.
\<close>

datatype error =
    ImportError
  | RuntimeError string
  | ValueError
  | AttributeError
  | OSError

text \<open>
  \<open>np.hstack((frame1, frame2))\<close> on three-dimensional arrays concatenates along the
  second axis. numpy demands that every other dimension agrees (here the height; the
  channel count is 3 by type) and raises \<open>ValueError\<close> otherwise. The widths are
  free.
\<close>

definition hstack :: "frame \<Rightarrow> frame \<Rightarrow> error + frame" where
  "hstack frame1 frame2 =
     (if height frame1 \<noteq> height frame2 then Inl ValueError
      else Inr \<lparr>height = height frame1,
                width = width frame1 + width frame2,
                rows = map2 (@) (rows frame1) (rows frame2)\<rparr>)"

text \<open>\<open>cv2.cvtColor(f, cv2.COLOR_RGB2BGR)\<close> builds a new array with the first and
  third channel of every pixel exchanged.\<close>

definition cvtColor :: "frame \<Rightarrow> frame" where
  "cvtColor f = f\<lparr>rows := map (map (\<lambda>(c0, c1, c2). (c2, c1, c0))) (rows f)\<rparr>"

text \<open>\<open>.tobytes()\<close> flattens the array in row-major order.\<close>

definition tobytes :: "frame \<Rightarrow> 8 word list" where
  "tobytes f = concat (map (\<lambda>(c0, c1, c2). [c0, c1, c2]) (concat (rows f)))"

section \<open>The two cameras\<close>

text \<open>
  Everything the program does to the outside world is recorded, in order, in a trace
  of events: calls to the camera driver (\<open>Picamera2\<close>), to the video writer
  (\<open>cv2.VideoWriter\<close>), to the viewer process and its pipe, and to the GPIO
  library. Printing and sleeping are left out: no state examined here depends on them.
\<close>

record VideoWriter =
  filename :: string
  fourcc :: string
  fps :: nat
  frameSize :: "nat \<times> nat"
  isOpened :: bool

datatype event =
    Makedirs string
  | GpioSetup
  | GpioAddEventDetect nat
  | GpioCleanup
  | CameraOpen nat
  | CameraConfigure nat "nat \<times> nat"
  | CameraStart nat
  | CameraStop nat
  | FfplayStart nat nat
  | FfplayTerminate
  | PipeWrite "8 word list"
  | PipeClose
  | ThreadStart
  | ThreadJoin
  | WriterOpen VideoWriter
  | WriterWrite VideoWriter frame
  | WriterRelease VideoWriter

text \<open>
  The four driver calls made for each camera: \<open>Picamera2(i)\<close>,
  \<open>create_preview_configuration\<close>, \<open>configure\<close> and \<open>start\<close>. The driver is
  outside the program, so which call raises, and what, is a parameter: \<open>faults i st\<close>
  is the exception of call \<open>st\<close> on device \<open>i\<close>, if it raises.
\<close>

datatype init_step = Construct | CreateConfig | Configure | Start

type_synonym faults = "nat \<Rightarrow> init_step \<Rightarrow> error option"

text \<open>A camera handle is the index of the device that the \<open>Picamera2\<close> object owns.\<close>

record StereoCamera =
  camera1 :: "nat option"
  camera2 :: "nat option"
  resolution :: "nat \<times> nat"
  framerate :: nat

text \<open>
  \<open>StereoCamera.init_cameras\<close>. The result is the exception raised, if any, with the
  object and the trace as they are at that moment: \<open>self.camera1\<close> is assigned as soon
  as the first constructor call returns.
\<close>

definition init_cameras ::
  "faults \<Rightarrow> StereoCamera \<Rightarrow> event list \<Rightarrow> error option \<times> StereoCamera \<times> event list" where
  "init_cameras faults self tr =
     (if faults 0 Construct \<noteq> None then (faults 0 Construct, self, tr) else
      let self = self\<lparr>camera1 := Some 0\<rparr>; tr = tr @ [CameraOpen 0] in
      if faults 0 CreateConfig \<noteq> None then (faults 0 CreateConfig, self, tr) else
      if faults 0 Configure \<noteq> None then (faults 0 Configure, self, tr) else
      let tr = tr @ [CameraConfigure 0 (resolution self)] in
      if faults 0 Start \<noteq> None then (faults 0 Start, self, tr) else
      let tr = tr @ [CameraStart 0] in
      if faults 1 Construct \<noteq> None then (faults 1 Construct, self, tr) else
      let self = self\<lparr>camera2 := Some 1\<rparr>; tr = tr @ [CameraOpen 1] in
      if faults 1 CreateConfig \<noteq> None then (faults 1 CreateConfig, self, tr) else
      if faults 1 Configure \<noteq> None then (faults 1 Configure, self, tr) else
      let tr = tr @ [CameraConfigure 1 (resolution self)] in
      if faults 1 Start \<noteq> None then (faults 1 Start, self, tr) else
      let tr = tr @ [CameraStart 1] in
      (None, self, tr))"

text \<open>
  \<open>StereoCamera.__init__\<close>: both handles start as \<open>None\<close>; an exception of
  \<open>init_cameras\<close> is printed and raised again, so the caller gets no object.
\<close>

definition StereoCamera_init ::
  "faults \<Rightarrow> nat \<times> nat \<Rightarrow> nat \<Rightarrow> event list \<Rightarrow> (error + StereoCamera) \<times> event list" where
  "StereoCamera_init faults res fr tr =
     (let self = \<lparr>camera1 = None, camera2 = None, resolution = res, framerate = fr\<rparr> in
      case init_cameras faults self tr of
        (Some e, self', tr') \<Rightarrow> (Inl e, tr')
      | (None, self', tr') \<Rightarrow> (Inr self', tr'))"

text \<open>
  \<open>StereoCamera.capture_stereo\<close>. \<open>grab i\<close> is what \<open>capture_array()\<close> of device
  \<open>i\<close> does at this call: a frame, or an exception of the driver.
\<close>

definition capture_stereo ::
  "(nat \<Rightarrow> error + frame) \<Rightarrow> StereoCamera \<Rightarrow> error + frame \<times> frame" where
  "capture_stereo grab self =
     (case (camera1 self, camera2 self) of
        (Some c1, Some c2) \<Rightarrow>
          (case grab c1 of
             Inl e \<Rightarrow> Inl e
           | Inr frame1 \<Rightarrow>
               (case grab c2 of Inl e \<Rightarrow> Inl e | Inr frame2 \<Rightarrow> Inr (frame1, frame2)))
      | _ \<Rightarrow> Inl (RuntimeError ''Cameras not properly initialized''))"

text \<open>\<open>StereoCamera.close\<close> stops each camera whose handle is set. It assigns
  nothing: the object is the same afterwards.\<close>

definition close :: "StereoCamera \<Rightarrow> event list \<Rightarrow> event list" where
  "close self tr =
     (let tr = (case camera1 self of Some c1 \<Rightarrow> tr @ [CameraStop c1] | None \<Rightarrow> tr) in
      case camera2 self of Some c2 \<Rightarrow> tr @ [CameraStop c2] | None \<Rightarrow> tr)"

section \<open>The recording controller\<close>

text \<open>
  The module's global variables. \<open>resolution\<close>, \<open>framerate\<close> and
  \<open>recordings_dir\<close> are assigned once, at the start of \<open>main\<close>, and never again;
  they are constants here (the first two renamed, the names being fields of
  \<open>StereoCamera\<close>).
\<close>

definition main_resolution :: "nat \<times> nat" where
  "main_resolution = (640, 480)"

definition main_framerate :: nat where
  "main_framerate = 30"

definition recordings_dir :: string where
  "recordings_dir = ''recordings''"

definition RECORD_BUTTON_PIN :: nat where
  "RECORD_BUTTON_PIN = 17"

definition QUIT_BUTTON_PIN :: nat where
  "QUIT_BUTTON_PIN = 27"

record globals =
  gpio_available :: bool
  is_recording :: bool
  out :: "VideoWriter option"
  stop_event :: bool
  trace :: "event list"

text \<open>\<open>os.path.join\<close> of two components, on POSIX.\<close>

definition path_join :: "string \<Rightarrow> string \<Rightarrow> string" where
  "path_join a b =
     (if take 1 b = ''/'' then b
      else if a = [] \<or> last a = CHR ''/'' then a @ b
      else a @ ''/'' @ b)"

text \<open>
  \<open>toggle_recording\<close>. \<open>timestamp\<close> is what \<open>time.strftime\<close> returns at the call
  and \<open>opens\<close> tells whether \<open>cv2.VideoWriter\<close> manages to open its file; the
  constructor returns an object in either case. In the second branch \<open>out.release()\<close>
  raises \<open>AttributeError\<close> when \<open>out\<close> is \<open>None\<close>, after the flag has been cleared.
\<close>

definition toggle_recording :: "string \<Rightarrow> bool \<Rightarrow> globals \<Rightarrow> error option \<times> globals" where
  "toggle_recording timestamp opens g =
     (if \<not> is_recording g then
        let output_filename = path_join recordings_dir (''stereo_output_'' @ timestamp @ ''.mp4'');
            w = \<lparr>filename = output_filename, fourcc = ''mp4v'', fps = main_framerate,
                 frameSize = (fst main_resolution * 2, snd main_resolution),
                 isOpened = opens\<rparr>
        in (None, g\<lparr>out := Some w, is_recording := True, trace := trace g @ [WriterOpen w]\<rparr>)
      else
        let g = g\<lparr>is_recording := False\<rparr> in
        case out g of
          None \<Rightarrow> (Some AttributeError, g)
        | Some w \<Rightarrow> (None, g\<lparr>out := None, trace := trace g @ [WriterRelease w]\<rparr>))"

text \<open>
  \<open>toggle_recording\<close> has two callers that the program does not synchronise: the
  keyboard listener, in a thread of its own, and \<open>button_callback\<close>, which the GPIO
  library runs for the record button once \<open>main\<close> has registered it. So a call
  can be suspended between two of its statements while the other caller runs. The
  places where a call can be: before the test of \<open>is_recording\<close>; in the first
  branch, before the writer is built and assigned to \<open>out\<close>, and before the flag is
  set; in the second branch, before the flag is cleared, before \<open>out.release()\<close>, and
  before \<open>out = None\<close>; and after the call, returned or left by an exception.
\<close>

datatype toggle_pc =
  AtTest | AtOpen | AtSetFlag | AtClearFlag | AtRelease | AtClearOut | Returned | Raised error

text \<open>One statement of \<open>toggle_recording\<close>.\<close>

fun toggle_step :: "string \<Rightarrow> bool \<Rightarrow> toggle_pc \<Rightarrow> globals \<Rightarrow> toggle_pc \<times> globals" where
  "toggle_step timestamp opens AtTest g =
     (if \<not> is_recording g then AtOpen else AtClearFlag, g)"
| "toggle_step timestamp opens AtOpen g =
     (let output_filename = path_join recordings_dir (''stereo_output_'' @ timestamp @ ''.mp4'');
          w = \<lparr>filename = output_filename, fourcc = ''mp4v'', fps = main_framerate,
               frameSize = (fst main_resolution * 2, snd main_resolution),
               isOpened = opens\<rparr>
      in (AtSetFlag, g\<lparr>out := Some w, trace := trace g @ [WriterOpen w]\<rparr>))"
| "toggle_step timestamp opens AtSetFlag g = (Returned, g\<lparr>is_recording := True\<rparr>)"
| "toggle_step timestamp opens AtClearFlag g = (AtRelease, g\<lparr>is_recording := False\<rparr>)"
| "toggle_step timestamp opens AtRelease g =
     (case out g of
        None \<Rightarrow> (Raised AttributeError, g)
      | Some w \<Rightarrow> (AtClearOut, g\<lparr>trace := trace g @ [WriterRelease w]\<rparr>))"
| "toggle_step timestamp opens AtClearOut g = (Returned, g\<lparr>out := None\<rparr>)"
| "toggle_step timestamp opens Returned g = (Returned, g)"
| "toggle_step timestamp opens (Raised e) g = (Raised e, g)"

text \<open>
  The two callers with the global variables they share. A caller is either outside
  \<open>toggle_recording\<close> or inside a call, at some place and with the time stamp and
  the fate of the writer of that call. A caller begins a call when it is outside, and
  executes the next statement of its call when it is inside; a call that returns
  leaves the caller outside again, a call that raises ends the caller's thread.
\<close>

datatype caller = Keyboard | Button

type_synonym call = "toggle_pc \<times> string \<times> bool"

record callers =
  glob :: globals
  keyboard_call :: "call option"
  button_call :: "call option"

datatype action = Begin caller string bool | Step caller

definition advance :: "call \<Rightarrow> globals \<Rightarrow> call option \<times> globals" where
  "advance c g =
     (case c of (pc, timestamp, opens) \<Rightarrow>
        (case toggle_step timestamp opens pc g of
           (Returned, g') \<Rightarrow> (None, g')
         | (pc', g') \<Rightarrow> (Some (pc', timestamp, opens), g')))"

fun exec :: "action \<Rightarrow> callers \<Rightarrow> callers" where
  "exec (Begin Keyboard timestamp opens) s =
     (if keyboard_call s = None then s\<lparr>keyboard_call := Some (AtTest, timestamp, opens)\<rparr>
      else s)"
| "exec (Begin Button timestamp opens) s =
     (if button_call s = None then s\<lparr>button_call := Some (AtTest, timestamp, opens)\<rparr>
      else s)"
| "exec (Step Keyboard) s =
     (case keyboard_call s of
        None \<Rightarrow> s
      | Some c \<Rightarrow> s\<lparr>glob := snd (advance c (glob s)),
                     keyboard_call := fst (advance c (glob s))\<rparr>)"
| "exec (Step Button) s =
     (case button_call s of
        None \<Rightarrow> s
      | Some c \<Rightarrow> s\<lparr>glob := snd (advance c (glob s)),
                     button_call := fst (advance c (glob s))\<rparr>)"

text \<open>A schedule is a list of actions; the callers take turns as it says.\<close>

fun run_calls :: "action list \<Rightarrow> callers \<Rightarrow> callers" where
  "run_calls [] s = s"
| "run_calls (a # as) s = run_calls as (exec a s)"

text \<open>Two calls overlap when both callers are inside \<open>toggle_recording\<close>. A
  schedule never overlaps when that holds at no moment of it.\<close>

definition overlap :: "callers \<Rightarrow> bool" where
  "overlap s \<longleftrightarrow> keyboard_call s \<noteq> None \<and> button_call s \<noteq> None"

fun never_overlap :: "action list \<Rightarrow> callers \<Rightarrow> bool" where
  "never_overlap [] s = (\<not> overlap s)"
| "never_overlap (a # as) s = (\<not> overlap s \<and> never_overlap as (exec a s))"

fun by_keyboard :: "action \<Rightarrow> bool" where
  "by_keyboard (Begin c timestamp opens) = (c = Keyboard)"
| "by_keyboard (Step c) = (c = Keyboard)"

text \<open>
  What holds of the flag and the writer at each place of a call that runs alone, and
  of the callers when at most one of them is inside a call.
\<close>

fun pc_ok :: "toggle_pc \<Rightarrow> globals \<Rightarrow> bool" where
  "pc_ok AtTest g = (is_recording g = (out g \<noteq> None))"
| "pc_ok AtOpen g = (\<not> is_recording g \<and> out g = None)"
| "pc_ok AtSetFlag g = (\<not> is_recording g \<and> out g \<noteq> None)"
| "pc_ok AtClearFlag g = (is_recording g \<and> out g \<noteq> None)"
| "pc_ok AtRelease g = (\<not> is_recording g \<and> out g \<noteq> None)"
| "pc_ok AtClearOut g = (\<not> is_recording g \<and> out g \<noteq> None)"
| "pc_ok Returned g = (is_recording g = (out g \<noteq> None))"
| "pc_ok (Raised e) g = False"

definition callers_ok :: "callers \<Rightarrow> bool" where
  "callers_ok s =
     (case (keyboard_call s, button_call s) of
        (None, None) \<Rightarrow> is_recording (glob s) = (out (glob s) \<noteq> None)
      | (Some (pc, c), None) \<Rightarrow> pc_ok pc (glob s)
      | (None, Some (pc, c)) \<Rightarrow> pc_ok pc (glob s)
      | (Some c, Some c') \<Rightarrow> False)"

text \<open>Both callers outside \<open>toggle_recording\<close>.\<close>

definition start_callers :: "globals \<Rightarrow> callers" where
  "start_callers g = \<lparr>glob = g, keyboard_call = None, button_call = None\<rparr>"

text \<open>How many video writers a trace has opened, and how many it has released.\<close>

definition writers_opened :: "event list \<Rightarrow> nat" where
  "writers_opened tr =
     length (filter (\<lambda>ev. case ev of WriterOpen w \<Rightarrow> True | _ \<Rightarrow> False) tr)"

definition writers_released :: "event list \<Rightarrow> nat" where
  "writers_released tr =
     length (filter (\<lambda>ev. case ev of WriterRelease w \<Rightarrow> True | _ \<Rightarrow> False) tr)"

section \<open>The keyboard listener\<close>

text \<open>
  \<open>str.lower\<close> on one character, for code points below 256: the ASCII capitals and
  the capitals of Latin-1 (\<open>0xC0\<close> to \<open>0xDE\<close> without the multiplication sign) move
  up by 32, every other character stays.
\<close>

definition lower_char :: "char \<Rightarrow> char" where
  "lower_char c =
     (let n = (of_char c :: nat) in
      if (65 \<le> n \<and> n \<le> 90) \<or> (192 \<le> n \<and> n \<le> 222 \<and> n \<noteq> 215)
      then char_of (n + 32) else c)"

text \<open>
  One character arriving on standard input: \<open>read\<close> is the string that
  \<open>sys.stdin.read(1)\<close> returns (empty at end of input), \<open>clock\<close> and
  \<open>writer_opens\<close> are the time stamp and the fate of the video writer should the key
  start a recording.
\<close>

record keypress =
  read :: string
  clock :: string
  writer_opens :: bool

datatype thread_status = Running | Finished | Died error

text \<open>The body of the loop of \<open>keyboard_input\<close> when a character is available. An
  exception of \<open>toggle_recording\<close> ends the thread.\<close>

definition keyboard_step :: "keypress \<Rightarrow> globals \<Rightarrow> thread_status \<times> globals" where
  "keyboard_step k g =
     (let key = map lower_char (read k) in
      if key = ''r'' then
        (case toggle_recording (clock k) (writer_opens k) g of
           (None, g') \<Rightarrow> (Running, g')
         | (Some e, g') \<Rightarrow> (Died e, g'))
      else if key = ''q'' then (Finished, g\<lparr>stop_event := True\<rparr>)
      else (Running, g))"

text \<open>\<open>keyboard_input\<close> over the characters that arrive during the time observed;
  \<open>Running\<close> at the end of the list says that the thread is still polling.\<close>

fun keyboard_input :: "keypress list \<Rightarrow> globals \<Rightarrow> thread_status \<times> globals" where
  "keyboard_input [] g = (if stop_event g then Finished else Running, g)"
| "keyboard_input (k # ks) g =
     (if stop_event g then (Finished, g)
      else case keyboard_step k g of
             (Running, g') \<Rightarrow> keyboard_input ks g'
           | (st, g') \<Rightarrow> (st, g'))"

section \<open>The capture loop\<close>

text \<open>
  One pass through the body of the loop of \<open>main\<close>. \<open>putText\<close> stands for
  \<open>cv2.putText(stitched_frame, "REC", ...)\<close>, which draws into the array it is
  given; \<open>cvtColor\<close> returns a new array each time. \<open>pipe_err\<close> is the exception
  of \<open>os.write\<close> on the viewer's pipe, if it raises.
\<close>

definition capture_iteration ::
  "(frame \<Rightarrow> frame) \<Rightarrow> (nat \<Rightarrow> error + frame) \<Rightarrow> error option \<Rightarrow> StereoCamera \<Rightarrow> globals
     \<Rightarrow> error option \<times> globals" where
  "capture_iteration putText grab pipe_err stereo_cam g =
     (case capture_stereo grab stereo_cam of
        Inl e \<Rightarrow> (Some e, g)
      | Inr (frame1, frame2) \<Rightarrow>
         (case hstack frame1 frame2 of
            Inl e \<Rightarrow> (Some e, g)
          | Inr stitched_frame \<Rightarrow>
             (let g = (if is_recording g then
                         (case out g of
                            Some w \<Rightarrow>
                              g\<lparr>trace := trace g @ [WriterWrite w (cvtColor stitched_frame)]\<rparr>
                          | None \<Rightarrow> g)
                       else g);
                  stitched_frame =
                    (if is_recording g then putText stitched_frame else stitched_frame)
              in if pipe_err \<noteq> None then (pipe_err, g)
                 else (None, g\<lparr>trace := trace g @
                                 [PipeWrite (tobytes (cvtColor stitched_frame))]\<rparr>))))"

text \<open>
  What happens around one pass of the loop: the frames the cameras deliver, the fate of
  the pipe, and the characters the keyboard listener reads before the loop tests
  \<open>stop_event\<close> again. The listener runs in a thread of its own; the model lets it
  run between two passes of the loop. The button callbacks of the GPIO library are
  not scheduled.
\<close>

record tick =
  captures :: "nat \<Rightarrow> error + frame"
  pipe_error :: "error option"
  keys :: "keypress list"

text \<open>
  The loop of \<open>main\<close> over the passes observed. The loop ends when \<open>stop_event\<close> is
  set or when a pass raises (the \<open>except Exception\<close> clause reports the exception and
  goes on to the \<open>finally\<close> block). When the observation ends with the loop still
  running, there is no result.
\<close>

fun capture_loop ::
  "(frame \<Rightarrow> frame) \<Rightarrow> tick list \<Rightarrow> StereoCamera \<Rightarrow> thread_status \<Rightarrow> globals
     \<Rightarrow> (thread_status \<times> globals) option" where
  "capture_loop putText [] stereo_cam th g = (if stop_event g then Some (th, g) else None)"
| "capture_loop putText (t # ts) stereo_cam th g =
     (if stop_event g then Some (th, g)
      else if fst (capture_iteration putText (captures t) (pipe_error t) stereo_cam g) \<noteq> None
      then Some (th, snd (capture_iteration putText (captures t) (pipe_error t) stereo_cam g))
      else let g = snd (capture_iteration putText (captures t) (pipe_error t) stereo_cam g) in
           if th = Running
           then capture_loop putText ts stereo_cam
                  (fst (keyboard_input (keys t) g)) (snd (keyboard_input (keys t) g))
           else capture_loop putText ts stereo_cam th g)"

text \<open>\<open>setup_gpio\<close> catches \<open>ImportError\<close> and \<open>RuntimeError\<close> only; \<open>gpio_err\<close>
  is what importing and setting up \<open>RPi.GPIO\<close> raises, if anything.\<close>

definition setup_gpio :: "error option \<Rightarrow> globals \<Rightarrow> error option \<times> globals" where
  "setup_gpio gpio_err g =
     (case gpio_err of
        None \<Rightarrow> (None, g\<lparr>gpio_available := True, trace := trace g @ [GpioSetup]\<rparr>)
      | Some ImportError \<Rightarrow> (None, g\<lparr>gpio_available := False\<rparr>)
      | Some (RuntimeError m) \<Rightarrow> (None, g\<lparr>gpio_available := False\<rparr>)
      | Some e \<Rightarrow> (Some e, g))"

text \<open>The \<open>finally\<close> block of \<open>main\<close>.\<close>

definition cleanup :: "StereoCamera \<Rightarrow> globals \<Rightarrow> globals" where
  "cleanup stereo_cam g =
     (let g = g\<lparr>stop_event := True\<rparr>;
          g = g\<lparr>trace := trace g @ [ThreadJoin]\<rparr>;
          g = (case out g of Some w \<Rightarrow> g\<lparr>trace := trace g @ [WriterRelease w]\<rparr> | None \<Rightarrow> g);
          g = g\<lparr>trace := close stereo_cam (trace g)\<rparr>;
          g = g\<lparr>trace := trace g @ [FfplayTerminate, PipeClose]\<rparr>
      in if gpio_available g then g\<lparr>trace := trace g @ [GpioCleanup]\<rparr> else g)"

text \<open>
  Everything \<open>main\<close> gets from outside: the exceptions of \<open>os.makedirs\<close>, of the
  GPIO set-up, of the camera driver and of \<open>subprocess.Popen\<close>, and the passes of the
  loop.
\<close>

record inputs =
  makedirs_error :: "error option"
  gpio_error :: "error option"
  camera_faults :: faults
  popen_error :: "error option"
  ticks :: "tick list"

text \<open>
  \<open>main\<close>. The result is \<open>None\<close> when the loop is still running at the end of the
  observation; otherwise it is the exception that leaves \<open>main\<close>, if any, with the
  final state. A failure of the camera constructor is caught: \<open>main\<close> prints it and
  returns.
\<close>

definition main :: "(frame \<Rightarrow> frame) \<Rightarrow> inputs \<Rightarrow> (error option \<times> globals) option" where
  "main putText inp =
     (let g = \<lparr>gpio_available = False, is_recording = False, out = None,
               stop_event = False, trace = []\<rparr> in
      if makedirs_error inp \<noteq> None then Some (makedirs_error inp, g) else
      let g = g\<lparr>trace := trace g @ [Makedirs recordings_dir]\<rparr> in
      if fst (setup_gpio (gpio_error inp) g) \<noteq> None then Some (setup_gpio (gpio_error inp) g) else
      let g = snd (setup_gpio (gpio_error inp) g) in
      case StereoCamera_init (camera_faults inp) main_resolution main_framerate (trace g) of
        (Inl e, tr) \<Rightarrow> Some (None, g\<lparr>trace := tr\<rparr>)
      | (Inr stereo_cam, tr) \<Rightarrow>
         (let g = g\<lparr>trace := tr\<rparr> in
          if popen_error inp \<noteq> None then Some (popen_error inp, g) else
          let g = g\<lparr>trace := trace g @
                      [FfplayStart (fst main_resolution * 2) (snd main_resolution)]\<rparr>;
              g = g\<lparr>out := None, is_recording := False, stop_event := False\<rparr>;
              g = (if gpio_available g
                   then g\<lparr>trace := trace g @ [GpioAddEventDetect RECORD_BUTTON_PIN,
                                               GpioAddEventDetect QUIT_BUTTON_PIN]\<rparr>
                   else g);
              g = g\<lparr>trace := trace g @ [ThreadStart]\<rparr>
          in case capture_loop putText (ticks inp) stereo_cam Running g of
               None \<Rightarrow> None
             | Some (th, g) \<Rightarrow> Some (None, cleanup stereo_cam g)))"

text \<open>The exit status of the interpreter: 0 when \<open>main\<close> returns, 1 when an
  exception leaves it.\<close>

definition exit_code :: "error option \<Rightarrow> nat" where
  "exit_code uncaught = (case uncaught of None \<Rightarrow> 0 | Some e \<Rightarrow> 1)"

text \<open>The exit status of the process for a result of \<open>main\<close>; there is none while
  the loop is still running.\<close>

definition process_exit :: "(error option \<times> globals) option \<Rightarrow> nat option" where
  "process_exit res = map_option (\<lambda>(uncaught, g). exit_code uncaught) res"

text \<open>A pass during which the keyboard listener reads the quit key.\<close>

definition quit_pressed :: "tick \<Rightarrow> bool" where
  "quit_pressed t \<longleftrightarrow> list_ex (\<lambda>k. map lower_char (read k) = ''q'') (keys t)"

section \<open>Sample inputs\<close>

definition frameA :: frame where
  "frameA = \<lparr>height = 1, width = 1, rows = [[(1, 2, 3)]]\<rparr>"

definition frameB :: frame where
  "frameB = \<lparr>height = 1, width = 1, rows = [[(4, 5, 6)]]\<rparr>"

definition frameWide :: frame where
  "frameWide = \<lparr>height = 1, width = 2, rows = [[(4, 5, 6), (7, 8, 9)]]\<rparr>"

definition frameTall :: frame where
  "frameTall = \<lparr>height = 2, width = 1, rows = [[(4, 5, 6)], [(7, 8, 9)]]\<rparr>"

text \<open>Sample drivers: one that never fails, one whose second camera is absent, and
  one that delivers a frame from either camera.\<close>

definition no_faults :: faults where
  "no_faults i st = None"

definition camera2_absent :: faults where
  "camera2_absent i st =
     (if i = 1 \<and> st = Construct then Some (RuntimeError ''Camera 1 not found'') else None)"

definition grabAB :: "nat \<Rightarrow> error + frame" where
  "grabAB i = (if i = 0 then Inr frameA else Inr frameB)"

text \<open>An overlay that paints the first pixel of the frame, in the colour that
  \<open>main\<close> passes to \<open>cv2.putText\<close>.\<close>

definition stamp :: "frame \<Rightarrow> frame" where
  "stamp f =
     f\<lparr>rows := (case rows f of (p # ps) # rs \<Rightarrow> ((0, 0, 255) # ps) # rs | rs \<Rightarrow> rs)\<rparr>"

text \<open>The state that \<open>main\<close> sets up before the loop, and the same state while a
  recording is running.\<close>

definition idle_globals :: globals where
  "idle_globals =
     \<lparr>gpio_available = False, is_recording = False, out = None, stop_event = False,
      trace = []\<rparr>"

definition writerA :: VideoWriter where
  "writerA =
     \<lparr>filename = ''recordings/stereo_output_20240101-120000.mp4'', fourcc = ''mp4v'',
      fps = 30, frameSize = (1280, 480), isOpened = True\<rparr>"

definition recording_globals :: globals where
  "recording_globals =
     \<lparr>gpio_available = False, is_recording = True, out = Some writerA, stop_event = False,
      trace = [WriterOpen writerA]\<rparr>"

definition both_cameras :: StereoCamera where
  "both_cameras =
     \<lparr>camera1 = Some 0, camera2 = Some 1, resolution = (640, 480), framerate = 30\<rparr>"

definition key_R :: keypress where
  "key_R = \<lparr>read = ''R'', clock = ''20240101-120000'', writer_opens = True\<rparr>"

definition key_q :: keypress where
  "key_q = \<lparr>read = ''q'', clock = ''20240101-120500'', writer_opens = True\<rparr>"

definition inputs_camera2_absent :: inputs where
  "inputs_camera2_absent =
     \<lparr>makedirs_error = None, gpio_error = Some ImportError,
      camera_faults = camera2_absent, popen_error = None, ticks = []\<rparr>"

definition inputs_record_then_quit :: inputs where
  "inputs_record_then_quit =
     \<lparr>makedirs_error = None, gpio_error = Some ImportError,
      camera_faults = no_faults, popen_error = None,
      ticks = [\<lparr>captures = grabAB, pipe_error = None, keys = [key_R]\<rparr>,
               \<lparr>captures = grabAB, pipe_error = None, keys = [key_q]\<rparr>]\<rparr>"

text \<open>The camera object as \<open>init_cameras\<close> leaves it when the second camera is
  absent.\<close>

definition camera1_only :: StereoCamera where
  "camera1_only =
     \<lparr>camera1 = Some 0, camera2 = None, resolution = (640, 480), framerate = 30\<rparr>"

text \<open>The recording state after one pass of the loop over the sample frames.\<close>

definition displayed_globals :: globals where
  "displayed_globals =
     recording_globals\<lparr>trace :=
        [WriterOpen writerA,
         WriterWrite writerA \<lparr>height = 1, width = 2, rows = [[(3, 2, 1), (6, 5, 4)]]\<rparr>,
         PipeWrite [255, 0, 0, 6, 5, 4]]\<rparr>"

section \<open>Composition of the stereo frame\<close>

lemma map2_append_take:
  "length xs = length ys \<Longrightarrow> list_all (\<lambda>r. length r = w) xs \<Longrightarrow>
   map (take w) (map2 (@) xs ys) = xs"
  by (induction xs ys rule: list_induct2) simp_all

lemma map2_append_drop:
  "length xs = length ys \<Longrightarrow> list_all (\<lambda>r. length r = w) xs \<Longrightarrow>
   map (drop w) (map2 (@) xs ys) = ys"
  by (induction xs ys rule: list_induct2) simp_all

lemma map2_append_widths:
  "length xs = length ys \<Longrightarrow> list_all (\<lambda>r. length r = w1) xs \<Longrightarrow>
   list_all (\<lambda>r. length r = w2) ys \<Longrightarrow>
   list_all (\<lambda>r. length r = w1 + w2) (map2 (@) xs ys)"
  by (induction xs ys rule: list_induct2) simp_all

text \<open>
  C2. For two valid frames of equal height and equal width, \<open>hstack\<close> succeeds with a
  valid frame of the same height and twice the width; cutting every row of the result
  at the single width gives back exactly the rows of the first frame on the left and
  exactly the rows of the second frame on the right.
\<close>

theorem hstack_equal_dimensions:
  assumes "valid_frame a" and "valid_frame b"
    and "height a = height b" and "width a = width b"
  shows "\<exists>s. hstack a b = Inr s \<and> valid_frame s
           \<and> width s = 2 * width a \<and> height s = height a
           \<and> map (take (width a)) (rows s) = rows a
           \<and> map (drop (width a)) (rows s) = rows b"
proof -
  from assms have len: "length (rows a) = length (rows b)"
    by (simp add: valid_frame_def)
  from assms have wa: "list_all (\<lambda>r. length r = width a) (rows a)"
    and wb: "list_all (\<lambda>r. length r = width a) (rows b)"
    by (simp_all add: valid_frame_def)
  let ?s = "\<lparr>height = height a, width = width a + width b,
             rows = map2 (@) (rows a) (rows b)\<rparr>"
  have "hstack a b = Inr ?s"
    using assms(3) by (simp add: hstack_def)
  moreover have "valid_frame ?s"
    using len assms map2_append_widths [OF len wa wb]
    by (simp add: valid_frame_def)
  moreover have "width ?s = 2 * width a" "height ?s = height a"
    using assms(4) by simp_all
  moreover have "map (take (width a)) (rows ?s) = rows a"
    using map2_append_take [OF len wa] by simp
  moreover have "map (drop (width a)) (rows ?s) = rows b"
    using map2_append_drop [OF len wa] by simp
  ultimately show ?thesis by blast
qed

theorem hstack_equal_dimensions_witness:
  "valid_frame frameA \<and> valid_frame frameB
   \<and> height frameA = height frameB \<and> width frameA = width frameB
   \<and> (\<exists>s. hstack frameA frameB = Inr s \<and> valid_frame s
           \<and> width s = 2 * width frameA \<and> height s = height frameA
           \<and> map (take (width frameA)) (rows s) = rows frameA
           \<and> map (drop (width frameA)) (rows s) = rows frameB)"
proof -
  have va: "valid_frame frameA" and vb: "valid_frame frameB"
    by (simp_all add: valid_frame_def frameA_def frameB_def)
  have h: "height frameA = height frameB" and w: "width frameA = width frameB"
    by (simp_all add: frameA_def frameB_def)
  show ?thesis
    using va vb h w hstack_equal_dimensions [OF va vb h w] by simp
qed

text \<open>
  C3, as stated, fails: two frames of equal height and different widths are
  concatenated without any error.
\<close>

theorem hstack_width_mismatch_counterexample:
  "width frameA \<noteq> width frameWide
   \<and> hstack frameA frameWide
       = Inr \<lparr>height = 1, width = 3, rows = [[(1, 2, 3), (4, 5, 6), (7, 8, 9)]]\<rparr>"
  by (simp add: hstack_def frameA_def frameWide_def)

text \<open>
  C3, amended. \<open>hstack\<close> fails, with \<open>ValueError\<close> and without an output frame,
  exactly when the two frames differ in height. Frames of equal height are
  concatenated whatever their widths, and the result is as wide as both together.
\<close>

theorem hstack_fails_iff_height_differs:
  "(height a \<noteq> height b \<longrightarrow> hstack a b = Inl ValueError)
   \<and> (height a = height b \<longrightarrow>
        (\<exists>s. hstack a b = Inr s \<and> height s = height a
              \<and> width s = width a + width b))"
  by (simp add: hstack_def)

theorem hstack_fails_iff_height_differs_witness:
  "height frameA \<noteq> height frameTall
   \<and> hstack frameA frameTall = Inl ValueError
   \<and> height frameA = height frameWide
   \<and> (\<exists>s. hstack frameA frameWide = Inr s \<and> height s = height frameA
            \<and> width s = width frameA + width frameWide)"
  using hstack_fails_iff_height_differs [of frameA frameTall]
    hstack_fails_iff_height_differs [of frameA frameWide]
  by (simp add: frameA_def frameTall_def frameWide_def)

section \<open>Opening the cameras and capturing\<close>

lemma init_cameras_error_is_fault:
  "init_cameras faults self tr = (Some e, self', tr') \<Longrightarrow>
   \<exists>i st. (i = 0 \<or> i = 1) \<and> faults i st = Some e"
  unfolding init_cameras_def Let_def
  by (fastforce split: if_splits)

lemma init_cameras_fault_is_error:
  "(i = 0 \<or> i = 1) \<Longrightarrow> faults i st \<noteq> None \<Longrightarrow>
   fst (init_cameras faults self tr) \<noteq> None"
  unfolding init_cameras_def Let_def
  by (cases st) (auto split: if_splits)

text \<open>
  C7, as stated, fails: when the second camera cannot be opened, the constructor
  raises the driver's exception while the first camera has been started, and the
  trace holds no \<open>CameraStop 0\<close>: nothing releases the first camera before the
  exception leaves.
\<close>

theorem StereoCamera_init_leak_counterexample:
  "StereoCamera_init camera2_absent (640, 480) 30 []
     = (Inl (RuntimeError ''Camera 1 not found''),
        [CameraOpen 0, CameraConfigure 0 (640, 480), CameraStart 0])"
  by (simp add: StereoCamera_init_def init_cameras_def camera2_absent_def)

text \<open>
  C7, amended. The constructor of \<open>StereoCamera\<close> fails exactly when one of the
  driver calls that open, configure or start one of the two cameras raises, and it
  fails with that very exception of the driver, raised again unchanged.
\<close>

theorem StereoCamera_init_fails_iff:
  "((\<exists>e. fst (StereoCamera_init faults res fr tr) = Inl e)
      \<longleftrightarrow> (\<exists>i st. (i = 0 \<or> i = 1) \<and> faults i st \<noteq> None))
   \<and> (\<forall>e. fst (StereoCamera_init faults res fr tr) = Inl e
          \<longrightarrow> (\<exists>i st. (i = 0 \<or> i = 1) \<and> faults i st = Some e))"
proof -
  define self
    where "self = \<lparr>camera1 = None, camera2 = None, resolution = res, framerate = fr\<rparr>"
  obtain r self' tr' where run: "init_cameras faults self tr = (r, self', tr')"
    using prod_cases3 by blast
  have res: "fst (StereoCamera_init faults res fr tr)
               = (case r of Some e \<Rightarrow> Inl e | None \<Rightarrow> Inr self')"
    using run unfolding StereoCamera_init_def Let_def self_def
    by (simp split: option.splits)
  have a: "\<exists>i st. (i = 0 \<or> i = 1) \<and> faults i st = Some e" if "r = Some e" for e
    using init_cameras_error_is_fault [of faults self tr e self' tr'] run that by simp
  have b: "r \<noteq> None" if "(i = 0 \<or> i = 1)" "faults i st \<noteq> None" for i st
    using init_cameras_fault_is_error [of i faults st self tr] that run by simp
  show ?thesis
  proof (cases r)
    case None
    with res have "fst (StereoCamera_init faults res fr tr) = Inr self'" by simp
    moreover from None b have "\<not> (\<exists>i st. (i = 0 \<or> i = 1) \<and> faults i st \<noteq> None)"
      by blast
    ultimately show ?thesis by simp
  next
    case (Some e)
    with res have "fst (StereoCamera_init faults res fr tr) = Inl e" by simp
    moreover from Some a have "\<exists>i st. (i = 0 \<or> i = 1) \<and> faults i st = Some e"
      by blast
    ultimately show ?thesis by auto
  qed
qed

theorem StereoCamera_init_fails_iff_witness:
  "fst (StereoCamera_init camera2_absent (640, 480) 30 [])
     = Inl (RuntimeError ''Camera 1 not found'')
   \<and> (\<exists>i st. (i = 0 \<or> i = 1)
         \<and> camera2_absent i st = Some (RuntimeError ''Camera 1 not found''))
   \<and> (\<exists>e. fst (StereoCamera_init camera2_absent (640, 480) 30 []) = Inl e)
   \<and> (\<exists>i st. (i = 0 \<or> i = 1) \<and> camera2_absent i st \<noteq> None)"
proof -
  have run: "fst (StereoCamera_init camera2_absent (640, 480) 30 [])
               = Inl (RuntimeError ''Camera 1 not found'')"
    by (simp add: StereoCamera_init_def init_cameras_def camera2_absent_def)
  show ?thesis
    using run StereoCamera_init_fails_iff [of camera2_absent "(640, 480)" 30 "[]"]
    by simp
qed

text \<open>
  C8, as stated, fails: after the constructor has succeeded and \<open>close\<close> has stopped
  both cameras, the handles are still set, the check of \<open>capture_stereo\<close> passes, and
  with a driver that still delivers the call returns a pair of frames.
\<close>

theorem capture_stereo_after_close_counterexample:
  "StereoCamera_init no_faults (640, 480) 30 []
     = (Inr both_cameras, [CameraOpen 0, CameraConfigure 0 (640, 480), CameraStart 0,
         CameraOpen 1, CameraConfigure 1 (640, 480), CameraStart 1])
   \<and> close both_cameras [] = [CameraStop 0, CameraStop 1]
   \<and> capture_stereo grabAB both_cameras = Inr (frameA, frameB)"
  by (simp add: StereoCamera_init_def init_cameras_def no_faults_def both_cameras_def
      close_def capture_stereo_def grabAB_def)

text \<open>
  C8, amended. \<open>capture_stereo\<close> fails with \<open>RuntimeError\<close> (``Cameras not properly
  initialized''), before asking the driver, whenever one of the two handles is
  \<open>None\<close>, that is, whenever \<open>init_cameras\<close> has not got as far as assigning both.
  With both handles set it asks camera 1 and then camera 2 for a frame and returns the
  pair, or fails with the first exception of the driver. \<open>close\<close> does not clear the
  handles, so a call after \<open>close\<close> is not refused.
\<close>

theorem capture_stereo_guard:
  "(camera1 self = None \<or> camera2 self = None \<longrightarrow>
      capture_stereo gr self = Inl (RuntimeError ''Cameras not properly initialized''))
   \<and> (\<forall>c1 c2 f1 f2. camera1 self = Some c1 \<and> camera2 self = Some c2
         \<and> gr c1 = Inr f1 \<and> gr c2 = Inr f2 \<longrightarrow>
         capture_stereo gr self = Inr (f1, f2))
   \<and> (\<forall>c1 c2 e. camera1 self = Some c1 \<and> camera2 self = Some c2
         \<and> (gr c1 = Inl e \<or> (\<exists>f1. gr c1 = Inr f1) \<and> gr c2 = Inl e) \<longrightarrow>
         capture_stereo gr self = Inl e)"
  by (auto simp: capture_stereo_def split: option.splits sum.splits)

theorem capture_stereo_guard_witness:
  "fst (snd (init_cameras camera2_absent
        \<lparr>camera1 = None, camera2 = None, resolution = (640, 480), framerate = 30\<rparr> []))
     = camera1_only
   \<and> camera2 camera1_only = None
   \<and> capture_stereo grabAB camera1_only
       = Inl (RuntimeError ''Cameras not properly initialized'')
   \<and> camera1 both_cameras = Some 0 \<and> camera2 both_cameras = Some 1
   \<and> grabAB 0 = Inr frameA \<and> grabAB 1 = Inr frameB
   \<and> capture_stereo grabAB both_cameras = Inr (frameA, frameB)"
proof -
  have part: "fst (snd (init_cameras camera2_absent
        \<lparr>camera1 = None, camera2 = None, resolution = (640, 480), framerate = 30\<rparr> []))
     = camera1_only"
    by (simp add: init_cameras_def camera2_absent_def camera1_only_def)
  have none: "camera2 camera1_only = None"
    by (simp add: camera1_only_def)
  have both: "camera1 both_cameras = Some 0" "camera2 both_cameras = Some 1"
    "grabAB 0 = Inr frameA" "grabAB 1 = Inr frameB"
    by (simp_all add: both_cameras_def grabAB_def)
  show ?thesis
    using part none both capture_stereo_guard [of camera1_only grabAB]
      capture_stereo_guard [of both_cameras grabAB]
    by simp
qed

section \<open>The recording controller: properties\<close>

lemma toggle_recording_invariant:
  "toggle_recording ts opens g = (r, g') \<Longrightarrow> is_recording g' = (out g' \<noteq> None)"
  by (auto simp: toggle_recording_def Let_def split: if_splits option.splits)

lemma toggle_recording_completes:
  "is_recording g = (out g \<noteq> None) \<Longrightarrow> fst (toggle_recording ts opens g) = None"
  by (auto simp: toggle_recording_def Let_def split: option.splits)

text \<open>
  C4, as stated, fails: when the video writer cannot open its file, the call still
  returns normally, keeps the writer in \<open>out\<close> and sets the recording flag; no error
  is raised and the state does not stay idle.
\<close>

theorem toggle_recording_sink_fails_counterexample:
  "toggle_recording ''20240101-120000'' False idle_globals
     = (None,
        idle_globals\<lparr>out := Some (writerA\<lparr>isOpened := False\<rparr>), is_recording := True,
                     trace := [WriterOpen (writerA\<lparr>isOpened := False\<rparr>)]\<rparr>)"
  by (simp add: toggle_recording_def Let_def idle_globals_def writerA_def path_join_def
      recordings_dir_def main_framerate_def main_resolution_def)

text \<open>
  C4, amended. From the idle state a call of \<open>toggle_recording\<close> always completes:
  it builds the video writer for \<open>recordings/stereo_output_<timestamp>.mp4\<close> at 30
  frames per second and 1280 by 480 pixels, keeps it in \<open>out\<close> and sets the recording
  flag, whether or not the writer managed to open its file.
\<close>

theorem toggle_recording_from_idle:
  assumes "\<not> is_recording g"
  shows "\<exists>w. toggle_recording timestamp opens g
               = (None, g\<lparr>out := Some w, is_recording := True,
                           trace := trace g @ [WriterOpen w]\<rparr>)
           \<and> isOpened w = opens
           \<and> filename w = ''recordings/stereo_output_'' @ timestamp @ ''.mp4''
           \<and> fps w = 30 \<and> frameSize w = (1280, 480)"
proof -
  let ?w = "\<lparr>filename = ''recordings/stereo_output_'' @ timestamp @ ''.mp4'',
             fourcc = ''mp4v'', fps = 30, frameSize = (1280, 480), isOpened = opens\<rparr>"
  have "toggle_recording timestamp opens g
          = (None, g\<lparr>out := Some ?w, is_recording := True,
                      trace := trace g @ [WriterOpen ?w]\<rparr>)"
    using assms
    by (simp add: toggle_recording_def Let_def path_join_def recordings_dir_def
        main_framerate_def main_resolution_def)
  then show ?thesis
    by (intro exI [of _ ?w]) simp
qed

theorem toggle_recording_from_idle_witness:
  "\<not> is_recording idle_globals
   \<and> (\<exists>w. toggle_recording ''20240101-120000'' False idle_globals
               = (None, idle_globals\<lparr>out := Some w, is_recording := True,
                           trace := trace idle_globals @ [WriterOpen w]\<rparr>)
           \<and> isOpened w = False
           \<and> filename w = ''recordings/stereo_output_'' @ ''20240101-120000'' @ ''.mp4''
           \<and> fps w = 30 \<and> frameSize w = (1280, 480))"
proof -
  have idle: "\<not> is_recording idle_globals"
    by (simp add: idle_globals_def)
  show ?thesis
    using idle toggle_recording_from_idle [OF idle, of "''20240101-120000''" False]
    by simp
qed

lemma capture_iteration_trace:
  "capture_iteration putText gr pe cam g = (r, g') \<Longrightarrow>
   \<exists>mid. trace g' = trace g @ mid \<and> writers_opened mid = 0 \<and> writers_released mid = 0"
  by (auto simp: capture_iteration_def Let_def writers_opened_def writers_released_def
      split: sum.splits option.splits if_splits)

text \<open>
  C6. Start idle (flag clear, no writer held) and call \<open>toggle_recording\<close>; let
  anything happen that leaves the flag and the writer alone and adds the events
  \<open>mid\<close> to the trace, such as passes of the capture loop; call \<open>toggle_recording\<close>
  again. Both calls complete; after the first the controller records, after the second
  it is idle again; the trace has grown by the opening of one writer, the events
  \<open>mid\<close>, and the release of that same writer. So across the pair one more writer has
  been opened and one more released than \<open>mid\<close> accounts for; a pass of the loop
  opens and releases none. A writer counts as opened when it is constructed, whether
  or not it could open its file.
\<close>

theorem toggle_recording_twice:
  assumes "\<not> is_recording g" and "out g = None"
    and "toggle_recording t1 o1 g = (r1, g1)"
    and "is_recording g' = is_recording g1" and "out g' = out g1"
    and "trace g' = trace g1 @ mid"
    and "toggle_recording t2 o2 g' = (r2, g2)"
  shows "r1 = None \<and> r2 = None \<and> is_recording g1 \<and> \<not> is_recording g2 \<and> out g2 = None
         \<and> (\<exists>w. out g1 = Some w \<and> isOpened w = o1
               \<and> trace g2 = trace g @ [WriterOpen w] @ mid @ [WriterRelease w])
         \<and> writers_opened (trace g2) = writers_opened (trace g) + 1 + writers_opened mid
         \<and> writers_released (trace g2) = writers_released (trace g) + writers_released mid + 1
         \<and> g2 = g'\<lparr>is_recording := False, out := None, trace := trace g2\<rparr>"
proof -
  obtain w where r1: "r1 = None"
    and g1: "g1 = g\<lparr>out := Some w, is_recording := True, trace := trace g @ [WriterOpen w]\<rparr>"
    and w: "isOpened w = o1"
    using assms(1,3) by (auto simp: toggle_recording_def Let_def)
  from g1 assms(4,5,6) have g': "is_recording g'" "out g' = Some w"
    "trace g' = trace g @ [WriterOpen w] @ mid"
    by simp_all
  from g' assms(7) have r2: "r2 = None"
    and g2: "g2 = g'\<lparr>is_recording := False, out := None,
                      trace := trace g' @ [WriterRelease w]\<rparr>"
    by (auto simp: toggle_recording_def Let_def)
  from g2 g' have tr: "trace g2 = trace g @ [WriterOpen w] @ mid @ [WriterRelease w]"
    by simp
  have counts: "writers_opened (trace g2) = writers_opened (trace g) + 1 + writers_opened mid"
    "writers_released (trace g2) = writers_released (trace g) + writers_released mid + 1"
    unfolding tr by (simp_all add: writers_opened_def writers_released_def)
  have same: "g2 = g'\<lparr>is_recording := False, out := None, trace := trace g2\<rparr>"
    by (simp add: g2)
  have "out g1 = Some w \<and> isOpened w = o1
        \<and> trace g2 = trace g @ [WriterOpen w] @ mid @ [WriterRelease w]"
    using g1 w tr by simp
  then have ex: "\<exists>w. out g1 = Some w \<and> isOpened w = o1
               \<and> trace g2 = trace g @ [WriterOpen w] @ mid @ [WriterRelease w]" ..
  from r1 r2 g1 g2 ex counts same show ?thesis by simp
qed

theorem toggle_recording_twice_witness:
  "\<not> is_recording idle_globals \<and> out idle_globals = None
   \<and> toggle_recording ''20240101-120000'' True idle_globals = (None, recording_globals)
   \<and> capture_iteration stamp grabAB None both_cameras recording_globals
       = (None, displayed_globals)
   \<and> is_recording displayed_globals = is_recording recording_globals
   \<and> out displayed_globals = out recording_globals
   \<and> trace displayed_globals
       = trace recording_globals
         @ [WriterWrite writerA \<lparr>height = 1, width = 2, rows = [[(3, 2, 1), (6, 5, 4)]]\<rparr>,
            PipeWrite [255, 0, 0, 6, 5, 4]]
   \<and> toggle_recording ''20240101-120500'' True displayed_globals
       = (None, idle_globals\<lparr>trace :=
            [WriterOpen writerA,
             WriterWrite writerA \<lparr>height = 1, width = 2, rows = [[(3, 2, 1), (6, 5, 4)]]\<rparr>,
             PipeWrite [255, 0, 0, 6, 5, 4],
             WriterRelease writerA]\<rparr>)
   \<and> writers_opened (trace (snd (toggle_recording ''20240101-120500'' True displayed_globals)))
       = 1
   \<and> writers_released (trace (snd (toggle_recording ''20240101-120500'' True displayed_globals)))
       = 1"
proof -
  let ?mid = "[WriterWrite writerA \<lparr>height = 1, width = 2, rows = [[(3, 2, 1), (6, 5, 4)]]\<rparr>,
               PipeWrite [255, 0, 0, 6, 5, 4]]"
  let ?g2 = "idle_globals\<lparr>trace :=
            [WriterOpen writerA,
             WriterWrite writerA \<lparr>height = 1, width = 2, rows = [[(3, 2, 1), (6, 5, 4)]]\<rparr>,
             PipeWrite [255, 0, 0, 6, 5, 4],
             WriterRelease writerA]\<rparr>"
  have idle: "\<not> is_recording idle_globals" "out idle_globals = None"
    by (simp_all add: idle_globals_def)
  have first: "toggle_recording ''20240101-120000'' True idle_globals
                 = (None, recording_globals)"
    by (simp add: toggle_recording_def Let_def idle_globals_def recording_globals_def
        writerA_def path_join_def recordings_dir_def main_framerate_def
        main_resolution_def)
  have pass: "capture_iteration stamp grabAB None both_cameras recording_globals
                = (None, displayed_globals)"
    by (simp add: capture_iteration_def capture_stereo_def both_cameras_def grabAB_def
        hstack_def frameA_def frameB_def recording_globals_def displayed_globals_def
        cvtColor_def stamp_def tobytes_def Let_def)
  have between: "is_recording displayed_globals = is_recording recording_globals"
    "out displayed_globals = out recording_globals"
    "trace displayed_globals = trace recording_globals @ ?mid"
    by (simp_all add: displayed_globals_def recording_globals_def)
  have second: "toggle_recording ''20240101-120500'' True displayed_globals = (None, ?g2)"
    by (simp add: toggle_recording_def Let_def displayed_globals_def
        recording_globals_def idle_globals_def)
  have mid: "writers_opened ?mid = 0" "writers_released ?mid = 0"
    "writers_opened (trace idle_globals) = 0" "writers_released (trace idle_globals) = 0"
    by (simp_all add: writers_opened_def writers_released_def idle_globals_def)
  from toggle_recording_twice [OF idle first between second] mid
  have "writers_opened (trace ?g2) = 1" "writers_released (trace ?g2) = 1"
    by simp_all
  with idle first pass between second show ?thesis by simp
qed

lemma advance_ok:
  assumes "pc_ok pc g" and "advance (pc, ts, opens) g = (c', g')"
  shows "case c' of None \<Rightarrow> is_recording g' = (out g' \<noteq> None)
         | Some (pc', x) \<Rightarrow> pc_ok pc' g'"
  using assms
  by (cases pc) (auto simp: advance_def Let_def split: if_splits option.splits)

lemma never_overlap_now: "never_overlap as s \<Longrightarrow> \<not> overlap s"
  by (cases as) simp_all

lemma exec_ok:
  assumes "callers_ok s" and "\<not> overlap (exec a s)"
  shows "callers_ok (exec a s)"
proof (cases a)
  case (Begin c ts opens)
  with assms show ?thesis
    by (cases c)
      (auto simp: callers_ok_def overlap_def split: option.splits prod.splits if_splits)
next
  case (Step c)
  show ?thesis
  proof (cases c)
    case Keyboard
    show ?thesis
    proof (cases "keyboard_call s")
      case None
      with Step Keyboard assms(1) show ?thesis by simp
    next
      case (Some cl)
      obtain pc ts opens where cl: "cl = (pc, ts, opens)" by (cases cl)
      obtain c' g' where adv: "advance (pc, ts, opens) (glob s) = (c', g')"
        by (cases "advance (pc, ts, opens) (glob s)")
      from assms(1) Some cl have none: "button_call s = None" and ok: "pc_ok pc (glob s)"
        by (auto simp: callers_ok_def split: option.splits)
      from advance_ok [OF ok adv] none Some cl adv Step Keyboard show ?thesis
        by (auto simp: callers_ok_def split: option.splits)
    qed
  next
    case Button
    show ?thesis
    proof (cases "button_call s")
      case None
      with Step Button assms(1) show ?thesis by simp
    next
      case (Some cl)
      obtain pc ts opens where cl: "cl = (pc, ts, opens)" by (cases cl)
      obtain c' g' where adv: "advance (pc, ts, opens) (glob s) = (c', g')"
        by (cases "advance (pc, ts, opens) (glob s)")
      from assms(1) Some cl have none: "keyboard_call s = None" and ok: "pc_ok pc (glob s)"
        by (auto simp: callers_ok_def split: option.splits)
      from advance_ok [OF ok adv] none Some cl adv Step Button show ?thesis
        by (auto simp: callers_ok_def split: option.splits)
    qed
  qed
qed

lemma run_calls_ok:
  "callers_ok s \<Longrightarrow> never_overlap as s \<Longrightarrow> callers_ok (run_calls as s)"
proof (induction as arbitrary: s)
  case Nil
  then show ?case by simp
next
  case (Cons a as)
  from Cons.prems(2) have rest: "never_overlap as (exec a s)" by simp
  then have "\<not> overlap (exec a s)" by (rule never_overlap_now)
  with Cons.prems(1) have "callers_ok (exec a s)" by (rule exec_ok)
  from Cons.IH [OF this rest] show ?case by simp
qed

lemma exec_keyboard_keeps_button:
  "by_keyboard a \<Longrightarrow> button_call (exec a s) = button_call s"
  by (cases a) (auto split: option.splits)

lemma keyboard_only_never_overlap:
  "button_call s = None \<Longrightarrow> list_all by_keyboard as \<Longrightarrow> never_overlap as s"
proof (induction as arbitrary: s)
  case Nil
  then show ?case by (simp add: overlap_def)
next
  case (Cons a as)
  from Cons.prems have "button_call (exec a s) = None"
    by (simp add: exec_keyboard_keeps_button)
  with Cons.prems Cons.IH [of "exec a s"] show ?case
    by (simp add: overlap_def)
qed

lemma callers_ok_no_raise:
  "callers_ok s \<Longrightarrow>
   keyboard_call s \<noteq> Some (Raised e, ts, opens) \<and> button_call s \<noteq> Some (Raised e, ts, opens)"
  by (auto simp: callers_ok_def split: option.splits)

text \<open>A call that runs without the other caller in between does what
  \<open>toggle_recording\<close> computes.\<close>

lemma toggle_recording_uninterrupted:
  "run_calls [Begin Keyboard ts opens, Step Keyboard, Step Keyboard, Step Keyboard,
              Step Keyboard] (start_callers g)
     = (case toggle_recording ts opens g of
          (None, g') \<Rightarrow> start_callers g'
        | (Some e, g') \<Rightarrow> (start_callers g')\<lparr>keyboard_call := Some (Raised e, ts, opens)\<rparr>)"
  by (auto simp: start_callers_def advance_def toggle_recording_def Let_def
      split: option.splits)

text \<open>
  C9, as stated, fails. Start a recording; then let the keyboard listener begin a
  call and clear the flag, let the button callback run a whole call, which starts a
  new recording, and let the listener finish: it releases the new writer and clears
  \<open>out\<close>. Both calls have completed without an exception, and the flag is set while
  no writer is held.
\<close>

theorem overlapping_toggles_counterexample:
  "run_calls
     [Begin Keyboard ''20240101-120000'' True, Step Keyboard, Step Keyboard, Step Keyboard,
      Begin Keyboard ''20240101-120500'' True, Step Keyboard, Step Keyboard,
      Begin Button ''20240101-120501'' True, Step Button, Step Button, Step Button,
      Step Keyboard, Step Keyboard]
     (start_callers idle_globals)
   = start_callers
       (idle_globals\<lparr>is_recording := True, out := None,
          trace := [WriterOpen writerA,
                    WriterOpen (writerA\<lparr>filename := ''recordings/stereo_output_20240101-120501.mp4''\<rparr>),
                    WriterRelease (writerA\<lparr>filename := ''recordings/stereo_output_20240101-120501.mp4''\<rparr>)]\<rparr>)"
  by (simp add: start_callers_def idle_globals_def advance_def Let_def writerA_def
      path_join_def recordings_dir_def main_framerate_def main_resolution_def)

text \<open>
  C9, amended. From the state that \<open>main\<close> sets up, under any schedule in which the
  calls of \<open>toggle_recording\<close> never overlap, no call raises, and whenever both
  callers are outside a call, that is, after initialization and after every complete
  call, the recording flag is set exactly when a writer is held in \<open>out\<close>. A schedule
  in which the keyboard listener is the only caller, as in operation without GPIO,
  never overlaps.
\<close>

theorem recording_flag_iff_writer_held:
  assumes "s0 = start_callers \<lparr>gpio_available = gp, is_recording = False, out = None,
                               stop_event = False, trace = tr\<rparr>"
  shows "(never_overlap as s0 \<longrightarrow>
            (keyboard_call (run_calls as s0) = None \<and> button_call (run_calls as s0) = None
               \<longrightarrow> is_recording (glob (run_calls as s0))
                     = (out (glob (run_calls as s0)) \<noteq> None))
            \<and> (\<forall>e ts opens. keyboard_call (run_calls as s0) \<noteq> Some (Raised e, ts, opens)
                   \<and> button_call (run_calls as s0) \<noteq> Some (Raised e, ts, opens)))
       \<and> (list_all by_keyboard as \<longrightarrow> never_overlap as s0)"
proof (intro conjI impI)
  have ok0: "callers_ok s0"
    by (simp add: assms start_callers_def callers_ok_def)
  {
    assume "never_overlap as s0"
    with ok0 have ok: "callers_ok (run_calls as s0)" by (rule run_calls_ok)
    {
      assume "keyboard_call (run_calls as s0) = None \<and> button_call (run_calls as s0) = None"
      with ok show "is_recording (glob (run_calls as s0))
                     = (out (glob (run_calls as s0)) \<noteq> None)"
        by (simp add: callers_ok_def)
    }
    from ok show "\<forall>e ts opens. keyboard_call (run_calls as s0) \<noteq> Some (Raised e, ts, opens)
                   \<and> button_call (run_calls as s0) \<noteq> Some (Raised e, ts, opens)"
      using callers_ok_no_raise by blast
  }
  assume "list_all by_keyboard as"
  moreover have "button_call s0 = None" by (simp add: assms start_callers_def)
  ultimately show "never_overlap as s0" by (simp add: keyboard_only_never_overlap)
qed

theorem recording_flag_iff_writer_held_witness:
  "start_callers idle_globals
     = start_callers \<lparr>gpio_available = False, is_recording = False, out = None,
                      stop_event = False, trace = []\<rparr>
   \<and> list_all by_keyboard
         [Begin Keyboard ''20240101-120000'' True, Step Keyboard, Step Keyboard, Step Keyboard]
   \<and> never_overlap
         [Begin Keyboard ''20240101-120000'' True, Step Keyboard, Step Keyboard, Step Keyboard]
         (start_callers idle_globals)
   \<and> run_calls
         [Begin Keyboard ''20240101-120000'' True, Step Keyboard, Step Keyboard, Step Keyboard]
         (start_callers idle_globals)
       = start_callers recording_globals
   \<and> is_recording recording_globals = (out recording_globals \<noteq> None)"
proof -
  let ?as = "[Begin Keyboard ''20240101-120000'' True, Step Keyboard, Step Keyboard,
              Step Keyboard]"
  have start: "start_callers idle_globals
     = start_callers \<lparr>gpio_available = False, is_recording = False, out = None,
                      stop_event = False, trace = []\<rparr>"
    by (simp add: idle_globals_def)
  have kb: "list_all by_keyboard ?as" by simp
  have run: "run_calls ?as (start_callers idle_globals) = start_callers recording_globals"
    by (simp add: start_callers_def idle_globals_def recording_globals_def advance_def
        Let_def writerA_def path_join_def recordings_dir_def main_framerate_def
        main_resolution_def)
  have quiet: "keyboard_call (start_callers recording_globals) = None
               \<and> button_call (start_callers recording_globals) = None"
    by (simp add: start_callers_def)
  have g: "glob (start_callers recording_globals) = recording_globals"
    by (simp add: start_callers_def)
  note inst = recording_flag_iff_writer_held [OF start, of ?as]
  from inst kb have no: "never_overlap ?as (start_callers idle_globals)" by blast
  with inst run quiet g
  have "is_recording recording_globals = (out recording_globals \<noteq> None)"
    by simp
  with start kb no run show ?thesis by simp
qed

section \<open>The keyboard listener: properties\<close>

lemma of_char_lower_char:
  "(of_char (lower_char c) :: nat) =
     (if (65 \<le> (of_char c :: nat) \<and> (of_char c :: nat) \<le> 90)
         \<or> (192 \<le> (of_char c :: nat) \<and> (of_char c :: nat) \<le> 222 \<and> (of_char c :: nat) \<noteq> 215)
      then of_char c + 32 else of_char c)"
  by (simp add: lower_char_def Let_def)

lemma char_eq_iff_nat: "c = d \<longleftrightarrow> (of_char c :: nat) = of_char d"
  by simp

lemma lower_char_eq_r: "lower_char c = CHR ''r'' \<longleftrightarrow> c = CHR ''r'' \<or> c = CHR ''R''"
  unfolding char_eq_iff_nat [of _ "CHR ''r''"] char_eq_iff_nat [of _ "CHR ''R''"]
    of_char_lower_char
  by (simp split: if_splits) arith

lemma lower_char_eq_q: "lower_char c = CHR ''q'' \<longleftrightarrow> c = CHR ''q'' \<or> c = CHR ''Q''"
  unfolding char_eq_iff_nat [of _ "CHR ''q''"] char_eq_iff_nat [of _ "CHR ''Q''"]
    of_char_lower_char
  by (simp split: if_splits) arith

text \<open>
  C10. For every character \<open>c\<close> read from standard input, one step of the keyboard
  listener changes the recording flag exactly when \<open>lower_char c\<close> is \<open>r\<close> (and then
  the new state is the one \<open>toggle_recording\<close> leaves), sets the stop flag and ends
  the listener when \<open>lower_char c\<close> is \<open>q\<close>, leaves the stop flag alone for any other
  character, and leaves the whole state alone when the character is neither. Lower
  case \<open>r\<close> is reached from \<open>r\<close> and \<open>R\<close> only, lower case \<open>q\<close> from \<open>q\<close> and \<open>Q\<close>
  only. When the flag agrees with the writer held, the step raises nothing.
\<close>

theorem keyboard_step_char:
  "\<exists>st g'. keyboard_step \<lparr>read = [c], clock = ts, writer_opens = opens\<rparr> g = (st, g')
     \<and> (is_recording g' \<noteq> is_recording g \<longleftrightarrow> lower_char c = CHR ''r'')
     \<and> (lower_char c = CHR ''r'' \<longrightarrow> g' = snd (toggle_recording ts opens g))
     \<and> (lower_char c = CHR ''q'' \<longrightarrow> stop_event g' \<and> st = Finished)
     \<and> (lower_char c \<noteq> CHR ''q'' \<longrightarrow> stop_event g' = stop_event g)
     \<and> (lower_char c \<noteq> CHR ''r'' \<and> lower_char c \<noteq> CHR ''q'' \<longrightarrow> g' = g \<and> st = Running)
     \<and> (lower_char c = CHR ''r'' \<longleftrightarrow> c = CHR ''r'' \<or> c = CHR ''R'')
     \<and> (lower_char c = CHR ''q'' \<longleftrightarrow> c = CHR ''q'' \<or> c = CHR ''Q'')
     \<and> (is_recording g = (out g \<noteq> None) \<longrightarrow> st = Running \<or> st = Finished)"
proof -
  let ?k = "\<lparr>read = [c], clock = ts, writer_opens = opens\<rparr>"
  consider (r) "lower_char c = CHR ''r''" | (q) "lower_char c = CHR ''q''"
    | (other) "lower_char c \<noteq> CHR ''r''" "lower_char c \<noteq> CHR ''q''"
    by blast
  then have "\<exists>st g'. keyboard_step ?k g = (st, g')
     \<and> (is_recording g' \<noteq> is_recording g \<longleftrightarrow> lower_char c = CHR ''r'')
     \<and> (lower_char c = CHR ''r'' \<longrightarrow> g' = snd (toggle_recording ts opens g))
     \<and> (lower_char c = CHR ''q'' \<longrightarrow> stop_event g' \<and> st = Finished)
     \<and> (lower_char c \<noteq> CHR ''q'' \<longrightarrow> stop_event g' = stop_event g)
     \<and> (lower_char c \<noteq> CHR ''r'' \<and> lower_char c \<noteq> CHR ''q'' \<longrightarrow> g' = g \<and> st = Running)
     \<and> (is_recording g = (out g \<noteq> None) \<longrightarrow> st = Running \<or> st = Finished)"
  proof cases
    case r
    then show ?thesis
      by (auto simp: keyboard_step_def toggle_recording_def Let_def split: option.splits)
  next
    case q
    then show ?thesis
      by (simp add: keyboard_step_def)
  next
    case other
    then show ?thesis
      by (simp add: keyboard_step_def)
  qed
  then show ?thesis
    using lower_char_eq_r [of c] lower_char_eq_q [of c] by blast
qed

theorem keyboard_step_char_witness:
  "(\<exists>st g'. keyboard_step \<lparr>read = ''R'', clock = ''20240101-120000'', writer_opens = True\<rparr>
              idle_globals = (st, g')
      \<and> is_recording g' \<noteq> is_recording idle_globals
      \<and> g' = snd (toggle_recording ''20240101-120000'' True idle_globals)
      \<and> stop_event g' = stop_event idle_globals
      \<and> (st = Running \<or> st = Finished))
   \<and> lower_char CHR ''R'' = CHR ''r''
   \<and> is_recording idle_globals = (out idle_globals \<noteq> None)
   \<and> (\<exists>st g'. keyboard_step \<lparr>read = ''Q'', clock = ''20240101-120000'', writer_opens = True\<rparr>
              idle_globals = (st, g')
      \<and> is_recording g' = is_recording idle_globals
      \<and> stop_event g' \<and> st = Finished)
   \<and> lower_char CHR ''Q'' = CHR ''q''
   \<and> (\<exists>st g'. keyboard_step \<lparr>read = ''x'', clock = ''20240101-120000'', writer_opens = True\<rparr>
              idle_globals = (st, g')
      \<and> g' = idle_globals \<and> st = Running)
   \<and> lower_char CHR ''x'' \<noteq> CHR ''r'' \<and> lower_char CHR ''x'' \<noteq> CHR ''q''"
proof -
  have low: "lower_char CHR ''R'' = CHR ''r''" "lower_char CHR ''Q'' = CHR ''q''"
    using lower_char_eq_r [of "CHR ''R''"] lower_char_eq_q [of "CHR ''Q''"] by simp_all
  have x: "lower_char CHR ''x'' = CHR ''x''"
    by (simp add: lower_char_def)
  have inv: "is_recording idle_globals = (out idle_globals \<noteq> None)"
    by (simp add: idle_globals_def)
  show ?thesis
    using low x inv
      keyboard_step_char [of "CHR ''R''" "''20240101-120000''" True idle_globals]
      keyboard_step_char [of "CHR ''Q''" "''20240101-120000''" True idle_globals]
      keyboard_step_char [of "CHR ''x''" "''20240101-120000''" True idle_globals]
    by auto
qed

section \<open>The capture loop and the exit status\<close>

text \<open>
  C1, as stated, fails: while recording, the frame handed to the video writer is the
  composed frame converted before the overlay is drawn, so it does not carry the
  marker; only the bytes written to the viewer's pipe come from the annotated frame.
\<close>

theorem capture_iteration_recording_counterexample:
  "capture_iteration stamp grabAB None both_cameras recording_globals
     = (None, recording_globals\<lparr>trace := trace recording_globals @
          [WriterWrite writerA \<lparr>height = 1, width = 2, rows = [[(3, 2, 1), (6, 5, 4)]]\<rparr>,
           PipeWrite [255, 0, 0, 6, 5, 4]]\<rparr>)
   \<and> hstack frameA frameB = Inr \<lparr>height = 1, width = 2, rows = [[(1, 2, 3), (4, 5, 6)]]\<rparr>
   \<and> cvtColor (stamp \<lparr>height = 1, width = 2, rows = [[(1, 2, 3), (4, 5, 6)]]\<rparr>)
       = \<lparr>height = 1, width = 2, rows = [[(255, 0, 0), (6, 5, 4)]]\<rparr>"
  by (simp add: capture_iteration_def capture_stereo_def both_cameras_def grabAB_def
      hstack_def frameA_def frameB_def recording_globals_def cvtColor_def stamp_def
      tobytes_def Let_def)

text \<open>
  C1, amended. In a pass of the loop with the recording flag set and a writer held,
  the composed frame is first converted and written to the video writer without the
  overlay; the overlay is drawn after that, and the viewer's pipe then receives the
  bytes of the annotated frame. The recording comes before the display, and only the
  display shows the marker.
\<close>

theorem capture_iteration_recording:
  assumes "is_recording g" and "out g = Some w"
    and "capture_stereo gr stereo_cam = Inr (frame1, frame2)"
    and "hstack frame1 frame2 = Inr stitched_frame"
  shows "capture_iteration putText gr None stereo_cam g
           = (None, g\<lparr>trace := trace g @
                [WriterWrite w (cvtColor stitched_frame),
                 PipeWrite (tobytes (cvtColor (putText stitched_frame)))]\<rparr>)"
  using assms by (simp add: capture_iteration_def Let_def)

theorem capture_iteration_recording_witness:
  "is_recording recording_globals \<and> out recording_globals = Some writerA
   \<and> capture_stereo grabAB both_cameras = Inr (frameA, frameB)
   \<and> hstack frameA frameB = Inr \<lparr>height = 1, width = 2, rows = [[(1, 2, 3), (4, 5, 6)]]\<rparr>
   \<and> capture_iteration stamp grabAB None both_cameras recording_globals
       = (None, recording_globals\<lparr>trace := trace recording_globals @
            [WriterWrite writerA
               (cvtColor \<lparr>height = 1, width = 2, rows = [[(1, 2, 3), (4, 5, 6)]]\<rparr>),
             PipeWrite (tobytes (cvtColor
               (stamp \<lparr>height = 1, width = 2, rows = [[(1, 2, 3), (4, 5, 6)]]\<rparr>)))]\<rparr>)"
proof -
  have rec: "is_recording recording_globals" "out recording_globals = Some writerA"
    by (simp_all add: recording_globals_def)
  have cap: "capture_stereo grabAB both_cameras = Inr (frameA, frameB)"
    by (simp add: capture_stereo_def both_cameras_def grabAB_def)
  have st: "hstack frameA frameB
              = Inr \<lparr>height = 1, width = 2, rows = [[(1, 2, 3), (4, 5, 6)]]\<rparr>"
    by (simp add: hstack_def frameA_def frameB_def)
  show ?thesis
    using rec cap st capture_iteration_recording [OF rec cap st, of stamp] by simp
qed

lemma capture_iteration_keeps:
  "capture_iteration putText gr pe cam g = (r, g') \<Longrightarrow>
   is_recording g' = is_recording g \<and> out g' = out g \<and> stop_event g' = stop_event g"
  by (auto simp: capture_iteration_def Let_def split: sum.splits option.splits if_splits)

lemma keyboard_step_inv:
  assumes "is_recording g = (out g \<noteq> None)" and "keyboard_step k g = (st, g')"
  shows "is_recording g' = (out g' \<noteq> None)
         \<and> (st = Running \<and> stop_event g' = stop_event g
              \<and> map lower_char (read k) \<noteq> ''q''
            \<or> st = Finished \<and> stop_event g')"
  using assms
  by (auto simp: keyboard_step_def toggle_recording_def Let_def
      split: if_splits option.splits)

lemma keyboard_input_inv:
  "is_recording g = (out g \<noteq> None) \<Longrightarrow> keyboard_input ks g = (st, g') \<Longrightarrow>
   is_recording g' = (out g' \<noteq> None)
   \<and> (st = Running \<and> \<not> stop_event g' \<or> st = Finished \<and> stop_event g')
   \<and> (list_ex (\<lambda>k. map lower_char (read k) = ''q'') ks \<longrightarrow> stop_event g')"
proof (induction ks arbitrary: g)
  case Nil
  then show ?case by (auto split: if_splits)
next
  case (Cons k ks)
  show ?case
  proof (cases "stop_event g")
    case True
    with Cons.prems show ?thesis by auto
  next
    case False
    obtain s1 g1 where step: "keyboard_step k g = (s1, g1)"
      by (cases "keyboard_step k g")
    from keyboard_step_inv [OF Cons.prems(1) step]
    have inv1: "is_recording g1 = (out g1 \<noteq> None)"
      and alt: "s1 = Running \<and> stop_event g1 = stop_event g
                  \<and> map lower_char (read k) \<noteq> ''q''
                \<or> s1 = Finished \<and> stop_event g1"
      by simp_all
    from alt show ?thesis
    proof
      assume run: "s1 = Running \<and> stop_event g1 = stop_event g
                     \<and> map lower_char (read k) \<noteq> ''q''"
      with False step Cons.prems(2) have "keyboard_input ks g1 = (st, g')" by simp
      from Cons.IH [OF inv1 this] run show ?thesis by simp
    next
      assume fin: "s1 = Finished \<and> stop_event g1"
      with False step Cons.prems(2) have "st = Finished" "g' = g1" by simp_all
      with fin inv1 show ?thesis by simp
    qed
  qed
qed

lemma capture_loop_stopped:
  "stop_event g \<Longrightarrow> capture_loop putText ts cam th g = Some (th, g)"
  by (cases ts) simp_all

lemma capture_loop_returns:
  "is_recording g = (out g \<noteq> None) \<Longrightarrow> th = Running \<or> stop_event g \<Longrightarrow>
   list_ex quit_pressed ts \<Longrightarrow> capture_loop putText ts cam th g \<noteq> None"
proof (induction ts arbitrary: th g)
  case Nil
  then show ?case by simp
next
  case (Cons t ts)
  show ?case
  proof (cases "stop_event g")
    case True
    then show ?thesis by (simp add: capture_loop_stopped)
  next
    case False
    with Cons.prems(2) have th: "th = Running" by simp
    obtain r g1 where it: "capture_iteration putText (captures t) (pipe_error t) cam g = (r, g1)"
      by (cases "capture_iteration putText (captures t) (pipe_error t) cam g")
    show ?thesis
    proof (cases r)
      case (Some e)
      with False it show ?thesis by simp
    next
      case None
      from capture_iteration_keeps [OF it] Cons.prems(1)
      have inv1: "is_recording g1 = (out g1 \<noteq> None)" by simp
      obtain th' g2 where kb: "keyboard_input (keys t) g1 = (th', g2)"
        by (cases "keyboard_input (keys t) g1")
      from keyboard_input_inv [OF inv1 kb]
      have inv2: "is_recording g2 = (out g2 \<noteq> None)"
        and alt: "th' = Running \<or> stop_event g2"
        and quit: "quit_pressed t \<longrightarrow> stop_event g2"
        by (auto simp: quit_pressed_def)
      have next_pass: "capture_loop putText (t # ts) cam th g = capture_loop putText ts cam th' g2"
        using False th it None kb by simp
      show ?thesis
      proof (cases "quit_pressed t")
        case True
        with quit have "stop_event g2" by simp
        then show ?thesis unfolding next_pass by (simp add: capture_loop_stopped)
      next
        case False
        with Cons.prems(3) have "list_ex quit_pressed ts" by simp
        from Cons.IH [OF inv2 alt this] show ?thesis unfolding next_pass .
      qed
    qed
  qed
qed

lemma StereoCamera_init_Inr_no_fault:
  assumes "StereoCamera_init faults res fr tr = (Inr cam, tr')"
    and "i = 0 \<or> i = 1"
  shows "faults i st = None"
proof (rule ccontr)
  assume "faults i st \<noteq> None"
  with assms(2) init_cameras_fault_is_error [of i faults st
      "\<lparr>camera1 = None, camera2 = None, resolution = res, framerate = fr\<rparr>" tr]
  have "fst (init_cameras faults
          \<lparr>camera1 = None, camera2 = None, resolution = res, framerate = fr\<rparr> tr) \<noteq> None"
    by simp
  with assms(1) show False
    by (auto simp: StereoCamera_init_def Let_def split: prod.splits option.splits)
qed

text \<open>
  A run of the whole program: the cameras open, the first pass displays a plain frame,
  the listener reads \<open>R\<close> and a recording starts, the second pass records the plain
  frame and displays the annotated one, the listener reads \<open>q\<close>, and the \<open>finally\<close>
  block releases the writer, stops both cameras and closes the viewer.
\<close>

lemma lower_char_samples:
  "lower_char CHR ''q'' = CHR ''q''" "lower_char CHR ''R'' = CHR ''r''"
  using lower_char_eq_r [of "CHR ''R''"] by (simp_all add: lower_char_def)

lemma main_record_then_quit:
  "main stamp inputs_record_then_quit =
     Some (None,
       \<lparr>gpio_available = False, is_recording = True, out = Some writerA, stop_event = True,
        trace =
          [Makedirs ''recordings'',
           CameraOpen 0, CameraConfigure 0 (640, 480), CameraStart 0,
           CameraOpen 1, CameraConfigure 1 (640, 480), CameraStart 1,
           FfplayStart 1280 480, ThreadStart,
           PipeWrite [3, 2, 1, 6, 5, 4],
           WriterOpen writerA,
           WriterWrite writerA \<lparr>height = 1, width = 2, rows = [[(3, 2, 1), (6, 5, 4)]]\<rparr>,
           PipeWrite [255, 0, 0, 6, 5, 4],
           ThreadJoin, WriterRelease writerA, CameraStop 0, CameraStop 1,
           FfplayTerminate, PipeClose]\<rparr>)"
  by (simp add: main_def Let_def inputs_record_then_quit_def setup_gpio_def
      StereoCamera_init_def init_cameras_def no_faults_def main_resolution_def
      main_framerate_def recordings_dir_def capture_iteration_def capture_stereo_def
      grabAB_def hstack_def frameA_def frameB_def cvtColor_def tobytes_def stamp_def
      key_R_def key_q_def keyboard_step_def toggle_recording_def path_join_def
      cleanup_def close_def writerA_def lower_char_samples)

text \<open>
  C5, as stated, fails: when the second camera cannot be opened, the constructor
  fails, \<open>main\<close> reports it and returns, and the process exits with status 0.
\<close>

theorem main_camera_failure_exit_counterexample:
  "fst (StereoCamera_init (camera_faults inputs_camera2_absent) main_resolution
          main_framerate [Makedirs recordings_dir])
     = Inl (RuntimeError ''Camera 1 not found'')
   \<and> process_exit (main stamp inputs_camera2_absent) = Some 0"
  by (simp add: main_def Let_def inputs_camera2_absent_def setup_gpio_def
      StereoCamera_init_def init_cameras_def camera2_absent_def process_exit_def
      exit_code_def)

text \<open>
  C5, amended. Once the recordings directory exists and the GPIO set-up has raised
  nothing that \<open>setup_gpio\<close> does not catch, the process exits with status 0 when the
  camera constructor fails before the loop (\<open>main\<close> reports and returns); when the
  viewer has been launched, every return of \<open>main\<close> gives status 0, whether the loop
  ended by a quit or by an exception caught in the loop; and when the quit key is read
  during some pass, \<open>main\<close> does return, with status 0.
\<close>

theorem main_exit_code:
  assumes "makedirs_error inp = None"
    and "gpio_error inp = None \<or> gpio_error inp = Some ImportError
         \<or> (\<exists>m. gpio_error inp = Some (RuntimeError m))"
  shows "((\<exists>i st. (i = 0 \<or> i = 1) \<and> camera_faults inp i st \<noteq> None)
            \<longrightarrow> process_exit (main putText inp) = Some 0)
       \<and> (popen_error inp = None
            \<longrightarrow> process_exit (main putText inp) = None
                \<or> process_exit (main putText inp) = Some 0)
       \<and> (popen_error inp = None \<and> list_ex quit_pressed (ticks inp)
            \<longrightarrow> process_exit (main putText inp) = Some 0)"
proof -
  define g0 where "g0 = \<lparr>gpio_available = False, is_recording = False, out = None,
                         stop_event = False, trace = [Makedirs recordings_dir]\<rparr>"
  define g1 where "g1 = snd (setup_gpio (gpio_error inp) g0)"
  have gp: "fst (setup_gpio (gpio_error inp) g0) = None"
    using assms(2) by (auto simp: setup_gpio_def)
  obtain r tr where cam: "StereoCamera_init (camera_faults inp) main_resolution
                            main_framerate (trace g1) = (r, tr)"
    by (cases "StereoCamera_init (camera_faults inp) main_resolution
                 main_framerate (trace g1)")
  show ?thesis
  proof (cases r)
    case (Inl e)
    with assms(1) gp cam have "main putText inp = Some (None, g1\<lparr>trace := tr\<rparr>)"
      by (simp add: main_def Let_def g0_def g1_def)
    then have "process_exit (main putText inp) = Some 0"
      by (simp add: process_exit_def exit_code_def)
    then show ?thesis by simp
  next
    case (Inr stereo_cam)
    have no_fault:
      "\<not> (\<exists>i st. (i = 0 \<or> i = 1) \<and> camera_faults inp i st \<noteq> None)"
    proof
      assume "\<exists>i st. (i = 0 \<or> i = 1) \<and> camera_faults inp i st \<noteq> None"
      then obtain i st where i: "i = 0 \<or> i = 1" and f: "camera_faults inp i st \<noteq> None"
        by blast
      from StereoCamera_init_Inr_no_fault [OF cam [unfolded Inr] i, of st] f
      show False by simp
    qed
    show ?thesis
    proof (cases "popen_error inp")
      case (Some e)
      show ?thesis
      proof (intro conjI impI)
        assume "\<exists>i st. (i = 0 \<or> i = 1) \<and> camera_faults inp i st \<noteq> None"
        with no_fault show "process_exit (main putText inp) = Some 0"
          by contradiction
      next
        assume "popen_error inp = None"
        with Some show "process_exit (main putText inp) = None
                        \<or> process_exit (main putText inp) = Some 0"
          by simp
      next
        assume "popen_error inp = None \<and> list_ex quit_pressed (ticks inp)"
        with Some show "process_exit (main putText inp) = Some 0"
          by simp
      qed
    next
      case None
      define g2 where "g2 =
        (let g = g1\<lparr>trace := tr\<rparr>;
             g = g\<lparr>trace := trace g @
                       [FfplayStart (fst main_resolution * 2) (snd main_resolution)]\<rparr>;
             g = g\<lparr>out := None, is_recording := False, stop_event := False\<rparr>;
             g = (if gpio_available g
                  then g\<lparr>trace := trace g @ [GpioAddEventDetect RECORD_BUTTON_PIN,
                                              GpioAddEventDetect QUIT_BUTTON_PIN]\<rparr>
                  else g)
         in g\<lparr>trace := trace g @ [ThreadStart]\<rparr>)"
      have inv: "is_recording g2 = (out g2 \<noteq> None)"
        by (simp add: g2_def Let_def)
      have run: "main putText inp =
          (case capture_loop putText (ticks inp) stereo_cam Running g2 of
             None \<Rightarrow> None
           | Some (th, g) \<Rightarrow> Some (None, cleanup stereo_cam g))"
        using assms(1) gp cam Inr None
        by (simp add: main_def Let_def g0_def g1_def g2_def)
      have zero: "process_exit (main putText inp) = None
                  \<or> process_exit (main putText inp) = Some 0"
        unfolding run
        by (simp add: process_exit_def exit_code_def split: option.splits)
      have quit: "process_exit (main putText inp) = Some 0"
        if "list_ex quit_pressed (ticks inp)"
      proof -
        from capture_loop_returns [OF inv _ that, of Running putText stereo_cam]
        have "capture_loop putText (ticks inp) stereo_cam Running g2 \<noteq> None" by simp
        then show ?thesis
          unfolding run
          by (auto simp: process_exit_def exit_code_def split: option.splits)
      qed
      show ?thesis
      proof (intro conjI impI)
        assume "\<exists>i st. (i = 0 \<or> i = 1) \<and> camera_faults inp i st \<noteq> None"
        with no_fault show "process_exit (main putText inp) = Some 0"
          by contradiction
      next
        show "process_exit (main putText inp) = None
              \<or> process_exit (main putText inp) = Some 0"
          by (rule zero)
      next
        assume "popen_error inp = None \<and> list_ex quit_pressed (ticks inp)"
        then show "process_exit (main putText inp) = Some 0"
          using quit by simp
      qed
    qed
  qed
qed

theorem main_exit_code_witness:
  "makedirs_error inputs_camera2_absent = None
   \<and> gpio_error inputs_camera2_absent = Some ImportError
   \<and> camera_faults inputs_camera2_absent 1 Construct \<noteq> None
   \<and> process_exit (main stamp inputs_camera2_absent) = Some 0
   \<and> makedirs_error inputs_record_then_quit = None
   \<and> gpio_error inputs_record_then_quit = Some ImportError
   \<and> popen_error inputs_record_then_quit = None
   \<and> list_ex quit_pressed (ticks inputs_record_then_quit)
   \<and> process_exit (main stamp inputs_record_then_quit) = Some 0"
proof -
  have a: "makedirs_error inputs_camera2_absent = None"
    "gpio_error inputs_camera2_absent = Some ImportError"
    "camera_faults inputs_camera2_absent 1 Construct \<noteq> None"
    by (simp_all add: inputs_camera2_absent_def camera2_absent_def)
  have b: "makedirs_error inputs_record_then_quit = None"
    "gpio_error inputs_record_then_quit = Some ImportError"
    "popen_error inputs_record_then_quit = None"
    by (simp_all add: inputs_record_then_quit_def)
  have q: "list_ex quit_pressed (ticks inputs_record_then_quit)"
    using lower_char_eq_q [of "CHR ''q''"]
    by (simp add: inputs_record_then_quit_def quit_pressed_def key_q_def key_R_def)
  have ga: "gpio_error inputs_camera2_absent = None
            \<or> gpio_error inputs_camera2_absent = Some ImportError
            \<or> (\<exists>m. gpio_error inputs_camera2_absent = Some (RuntimeError m))"
    using a(2) by simp
  have gb: "gpio_error inputs_record_then_quit = None
            \<or> gpio_error inputs_record_then_quit = Some ImportError
            \<or> (\<exists>m. gpio_error inputs_record_then_quit = Some (RuntimeError m))"
    using b(2) by simp
  have ca: "\<exists>i st. (i = 0 \<or> i = 1) \<and> camera_faults inputs_camera2_absent i st \<noteq> None"
    using a(3) by blast
  have "process_exit (main stamp inputs_camera2_absent) = Some 0"
    using main_exit_code [OF a(1) ga, of stamp, THEN conjunct1, THEN mp, OF ca] .
  moreover have "process_exit (main stamp inputs_record_then_quit) = Some 0"
    using main_exit_code [OF b(1) gb, of stamp, THEN conjunct2, THEN conjunct2, THEN mp,
        OF conjI [OF b(3) q]] .
  ultimately show ?thesis
    using a b q by simp
qed

end
